theory Spec2Isabelle
  imports Complex_Main "HOL-Library.Multiset" "HOL-Library.Log_Nat"
begin

section \<open>Math Trainer: the data of \<^verbatim>\<open>src/App.js\<close>\<close>

text \<open>
  The component \<^verbatim>\<open>MathTrainer\<close> keeps its settings and its run state in React state
  cells and its history in \<^verbatim>\<open>localStorage\<close>. The model below is a shallow embedding of
  its handlers as functions from state to state.

  \<^item> A JavaScript number is a double. A finite double is kept as the rational it
    denotes; \<open>jsnum\<close> adds the infinities and \<^verbatim>\<open>NaN\<close>. The arithmetic of the generator
    and the sum \<open>a + b\<close> round to the nearest double after every operation
    (\<open>round64\<close>). The settings are finite numbers, as a number field yields them. The
    counters (index, score, elapsed seconds, clock readings) are integers far below
    \<open>2^53\<close>, where the arithmetic of doubles is exact.
  \<^item> A string is a list of code units below 256.
  \<^item> \<^verbatim>\<open>Math.random\<close> is a sequence of numbers: \<open>rnd 0\<close> is the next value drawn, and
    \<open>shift\<close> moves to the values after it.
  \<^item> \<^verbatim>\<open>Date\<close> readings are parameters of the handler that takes them.
  \<^item> \<^verbatim>\<open>JSON.parse\<close> and \<^verbatim>\<open>JSON.stringify\<close> belong to the runtime and are parameters.
  \<^item> A handler belongs to the render that created it: it reads the cells of that
    render and writes the current ones. \<^verbatim>\<open>stop_from c\<close>, \<^verbatim>\<open>next_from c\<close> and
    \<^verbatim>\<open>checkAnswer_from c\<close> are the handlers of the render with cells \<open>c\<close>; \<^verbatim>\<open>stop\<close>,
    \<^verbatim>\<open>next\<close> and \<^verbatim>\<open>checkAnswer\<close> are those of the current render. The focus calls on the
    input element change no state and are left out.
\<close>

section \<open>Doubles\<close>

datatype jsnum = Num rat | PosInf | NegInf | NaN

text \<open>Rounding to the nearest integer, a tie to the even one.\<close>

definition roundHalfEven :: "rat \<Rightarrow> int" where
  "roundHalfEven y =
     (let f = \<lfloor>y\<rfloor>; d = y - of_int f
      in if d < 1 / 2 then f else if 1 / 2 < d then f + 1 else if even f then f else f + 1)"

text \<open>The binary exponent of a positive number: the \<open>e\<close> with \<open>2^e \<le> x < 2^(e+1)\<close>.\<close>

definition ilog2 :: "rat \<Rightarrow> int" where
  "ilog2 x =
     (let d = bitlen (fst (quotient_of x)) - bitlen (snd (quotient_of x))
      in if 2 powi d \<le> x then d else d - 1)"

text \<open>
  The double nearest to a rational (IEEE 754 binary64, round to nearest, ties to
  even): 53 significant bits, exponents from \<open>-1022\<close> (below it the spacing stays
  \<open>2^-1074\<close>), and infinity when the rounded value reaches \<open>2^1024\<close>. The two zeros are
  one value.
\<close>

definition round64 :: "rat \<Rightarrow> jsnum" where
  "round64 x =
     (if x = 0 then Num 0
      else
        (let e = max (ilog2 \<bar>x\<bar>) (- 1022);
             q = 2 powi (e - 52);
             y = of_int (roundHalfEven (x / q)) * q
         in if 2 powi 1024 \<le> \<bar>y\<bar> then (if 0 < x then PosInf else NegInf) else Num y))"

text \<open>The operators \<^verbatim>\<open>+\<close>, \<^verbatim>\<open>-\<close> and \<^verbatim>\<open>*\<close> of JavaScript, and \<^verbatim>\<open>Math.floor\<close>.\<close>

fun jadd :: "jsnum \<Rightarrow> jsnum \<Rightarrow> jsnum" where
  "jadd (Num x) (Num y) = round64 (x + y)"
| "jadd NaN v = NaN"
| "jadd v NaN = NaN"
| "jadd PosInf NegInf = NaN"
| "jadd NegInf PosInf = NaN"
| "jadd PosInf v = PosInf"
| "jadd v PosInf = PosInf"
| "jadd NegInf v = NegInf"
| "jadd v NegInf = NegInf"

fun jneg :: "jsnum \<Rightarrow> jsnum" where
  "jneg (Num x) = Num (- x)"
| "jneg PosInf = NegInf"
| "jneg NegInf = PosInf"
| "jneg NaN = NaN"

fun jmul :: "jsnum \<Rightarrow> jsnum \<Rightarrow> jsnum" where
  "jmul (Num x) (Num y) = round64 (x * y)"
| "jmul NaN v = NaN"
| "jmul v NaN = NaN"
| "jmul (Num x) v = (if x = 0 then NaN else if 0 < x then v else jneg v)"
| "jmul v (Num y) = (if y = 0 then NaN else if 0 < y then v else jneg v)"
| "jmul PosInf v = v"
| "jmul NegInf v = jneg v"

fun jfloor :: "jsnum \<Rightarrow> jsnum" where
  "jfloor (Num x) = Num (of_int \<lfloor>x\<rfloor>)"
| "jfloor v = v"

instantiation jsnum :: "{plus, minus, times}"
begin

definition plus_jsnum :: "jsnum \<Rightarrow> jsnum \<Rightarrow> jsnum" where
  "plus_jsnum v w = jadd v w"

definition minus_jsnum :: "jsnum \<Rightarrow> jsnum \<Rightarrow> jsnum" where
  "minus_jsnum v w = jadd v (jneg w)"

definition times_jsnum :: "jsnum \<Rightarrow> jsnum \<Rightarrow> jsnum" where
  "times_jsnum v w = jmul v w"

instance ..

end

section \<open>The data\<close>

type_synonym rng = "nat \<Rightarrow> rat"

definition shift :: "nat \<Rightarrow> rng \<Rightarrow> rng" where
  "shift k rnd = (\<lambda>i. rnd (i + k))"


text \<open>
  A problem \<^verbatim>\<open>{ a, b, op: "+", id: `${a}-${b}-${i}` }\<close>. The identifier is kept as the
  three values the template string is formatted from; nothing in the component reads
  it back.
\<close>

record problem =
  p_a :: jsnum
  p_b :: jsnum
  p_op :: string
  p_id :: "jsnum \<times> jsnum \<times> nat"

text \<open>The feedback \<^verbatim>\<open>{ ok, correct }\<close>; \<^verbatim>\<open>correct\<close> is \<^verbatim>\<open>null\<close> when the timer expires
  with no current problem.\<close>

record feedback =
  ok :: bool
  correct :: "jsnum option"

text \<open>The session record built by \<^verbatim>\<open>stop\<close>.\<close>

record srecord =
  date :: string
  problemsCount :: rat
  solved :: nat
  total :: rat
  durationSec :: int
  reason :: string

text \<open>
  The clock readings of one call of \<^verbatim>\<open>stop\<close>, in the order the record literal takes
  them: \<^verbatim>\<open>new Date().toISOString()\<close>, then the two \<^verbatim>\<open>Date.now()\<close> of \<^verbatim>\<open>durationSec\<close>
  (milliseconds).
\<close>

record clock =
  iso :: string
  now1 :: int
  now2 :: int

text \<open>
  The state cells of the component, followed by the two pieces of the environment the
  handlers write: the \<^verbatim>\<open>localStorage\<close> entry \<^verbatim>\<open>"math-trainer-history"\<close> (\<open>None\<close> when the
  key is absent) and the number of \<^verbatim>\<open>setTimeout(() => next(), 500)\<close> calls scheduled.
  The history cell is typed as a list of records: these are the states of a component
  whose stored history was one (see \<open>loadHistory\<close> for the others).
\<close>

record state =
  minOperand :: rat
  maxOperand :: rat
  numProblems :: rat
  timePerProblem :: rat
  autoNext :: bool
  shuffle :: bool
  running :: bool
  problems :: "problem list"
  index :: nat
  answer :: string
  feedback :: "feedback option"
  score :: nat
  startTime :: "int option"
  elapsed :: nat
  history :: "srecord list"
  storage :: "string option"
  pendingNext :: nat

section \<open>The problem generator\<close>

text \<open>\<^verbatim>\<open>const randInt = (a, b) => Math.floor(Math.random() * (b - a + 1)) + a\<close>, with the
  value drawn as \<open>r\<close>.\<close>

definition randInt :: "rat \<Rightarrow> rat \<Rightarrow> rat \<Rightarrow> jsnum" where
  "randInt a b r = jfloor (Num r * (Num b - Num a + Num 1)) + Num a"

text \<open>The loop \<^verbatim>\<open>for (let i = 0; i < n; i++)\<close> of \<^verbatim>\<open>makeProblems\<close>: two draws and one
  \<^verbatim>\<open>push\<close> per round.\<close>

function gen_loop :: "nat \<Rightarrow> rat \<Rightarrow> rat \<Rightarrow> rat \<Rightarrow> rng \<Rightarrow> problem list \<Rightarrow> problem list \<times> rng" where
  "gen_loop i n minV maxV rnd arr =
     (if of_nat i < n then
        (let a = randInt minV maxV (rnd 0);
             b = randInt minV maxV (rnd 1)
         in gen_loop (Suc i) n minV maxV (shift 2 rnd)
              (arr @ [\<lparr>p_a = a, p_b = b, p_op = ''+'', p_id = (a, b, i)\<rparr>]))
      else (arr, rnd))"
  by pat_completeness auto
termination
proof (relation "measure (\<lambda>(i, n, minV, maxV, rnd, arr). nat \<lceil>n\<rceil> - i)")
  show "wf (measure (\<lambda>(i, n, minV, maxV, rnd, arr). nat \<lceil>n\<rceil> - i))"
    by simp
next
  fix i :: nat and n minV maxV :: rat and rnd :: rng and arr :: "problem list"
    and x xa
  assume lt: "of_nat i < n"
  have "n \<le> of_int \<lceil>n\<rceil>"
    by simp
  with lt have "(of_nat i :: rat) < of_int \<lceil>n\<rceil>"
    by (rule less_le_trans)
  then have "int i < \<lceil>n\<rceil>"
    by (metis of_int_less_iff of_int_of_nat_eq)
  then have "i < nat \<lceil>n\<rceil>"
    by simp
  then show "((Suc i, n, minV, maxV, shift 2 rnd,
                arr @ [\<lparr>p_a = x, p_b = xa, p_op = ''+'', p_id = (x, xa, i)\<rparr>]),
              (i, n, minV, maxV, rnd, arr))
             \<in> measure (\<lambda>(i, n, minV, maxV, rnd, arr). nat \<lceil>n\<rceil> - i)"
    by simp
qed

declare gen_loop.simps [simp del]

text \<open>
  \<^verbatim>\<open>arr.sort(() => Math.random() - 0.5)\<close>. The sort is the engine's: ECMAScript leaves
  the sequence of comparator calls to the implementation. It is modelled as an
  insertion sort, every comparison of which is one call of the comparator, that is one
  draw; a negative result puts the element being inserted first.
\<close>

definition comparator :: "rat \<Rightarrow> rat" where
  "comparator r = r - 1 / 2"

fun sort_insert :: "'a \<Rightarrow> 'a list \<Rightarrow> rng \<Rightarrow> 'a list \<times> rng" where
  "sort_insert x [] rnd = ([x], rnd)"
| "sort_insert x (y # ys) rnd =
     (if comparator (rnd 0) < 0 then (x # y # ys, shift 1 rnd)
      else (let (zs, rnd') = sort_insert x ys (shift 1 rnd) in (y # zs, rnd')))"

fun sort_random :: "'a list \<Rightarrow> rng \<Rightarrow> 'a list \<times> rng" where
  "sort_random [] rnd = ([], rnd)"
| "sort_random (x # xs) rnd =
     (let (ys, rnd') = sort_random xs rnd in sort_insert x ys rnd')"

definition makeProblems :: "rat \<Rightarrow> rat \<Rightarrow> rat \<Rightarrow> bool \<Rightarrow> rng \<Rightarrow> problem list \<times> rng" where
  "makeProblems n minV maxV shuffled rnd =
     (let (arr, rnd') = gen_loop 0 n minV maxV rnd []
      in if shuffled then sort_random arr rnd' else (arr, rnd'))"



section \<open>Reading the answer\<close>

text \<open>
  \<^verbatim>\<open>parseInt(String(userAnswer).trim(), 10)\<close>. \<^verbatim>\<open>userAnswer\<close> is the text of the input
  field, so \<^verbatim>\<open>String\<close> changes nothing. The white space of \<^verbatim>\<open>trim\<close> and of
  \<^verbatim>\<open>parseInt\<close> below code unit 256 is TAB, LF, VT, FF, CR, SP and NBSP.
\<close>

definition isWhiteSpace :: "char \<Rightarrow> bool" where
  "isWhiteSpace c \<longleftrightarrow> (of_char c :: nat) \<in> {9, 10, 11, 12, 13, 32, 160}"

definition trim :: "string \<Rightarrow> string" where
  "trim str = rev (dropWhile isWhiteSpace (rev (dropWhile isWhiteSpace str)))"

definition isDigit :: "char \<Rightarrow> bool" where
  "isDigit c \<longleftrightarrow> 48 \<le> (of_char c :: nat) \<and> (of_char c :: nat) \<le> 57"

definition digitVal :: "char \<Rightarrow> int" where
  "digitVal c = int (of_char c) - 48"

definition digitsVal :: "string \<Rightarrow> int" where
  "digitsVal Z = foldl (\<lambda>acc c. 10 * acc + digitVal c) 0 Z"

text \<open>
  \<^verbatim>\<open>parseInt(str, 10)\<close> as ECMAScript defines it: leading white space is skipped, one
  sign is read, then the longest run of decimal digits; what follows the digits is
  ignored, and with no digit the result is \<^verbatim>\<open>NaN\<close> (\<open>None\<close>). The integer read is the
  mathematical one; \<^verbatim>\<open>checkAnswer\<close> rounds it to the number \<^verbatim>\<open>parseInt\<close> returns.
\<close>

definition parseInt :: "string \<Rightarrow> int option" where
  "parseInt str =
     (let S = dropWhile isWhiteSpace str;
          sign = (if S \<noteq> [] \<and> hd S = CHR ''-'' then - 1 else 1);
          S' = (if S \<noteq> [] \<and> (hd S = CHR ''+'' \<or> hd S = CHR ''-'') then tl S else S);
          Z = takeWhile isDigit S'
      in if Z = [] then None else Some (sign * digitsVal Z))"




text \<open>
  Classes of answer text, in the words of the claims. \<open>numeric\<close>: the text of an
  integer, that is an optional sign and decimal digits and nothing else, white space
  around it apart. \<open>startsWithInteger\<close>: after an optional sign, the text begins with a
  digit; \<open>leadingInteger\<close> is then the integer its sign and leading digits write.
\<close>

definition stripSign :: "string \<Rightarrow> string" where
  "stripSign t = (if t \<noteq> [] \<and> (hd t = CHR ''+'' \<or> hd t = CHR ''-'') then tl t else t)"


definition startsWithInteger :: "string \<Rightarrow> bool" where
  "startsWithInteger t \<longleftrightarrow> stripSign t \<noteq> [] \<and> isDigit (hd (stripSign t))"


section \<open>The handlers\<close>

text \<open>\<^verbatim>\<open>start\<close>; \<open>now\<close> is its \<^verbatim>\<open>Date.now()\<close>. It reads the settings only, which every
  render of the Start button holds as they are.\<close>

definition start :: "rng \<Rightarrow> int \<Rightarrow> state \<Rightarrow> state \<times> rng" where
  "start rnd now s =
     (let (p, rnd') = makeProblems (numProblems s) (minOperand s) (maxOperand s) (shuffle s) rnd
      in (s\<lparr>problems := p, index := 0, score := 0, feedback := None, running := True,
            startTime := Some now, elapsed := 0, answer := []\<rparr>, rnd'))"

text \<open>\<^verbatim>\<open>Math.round(ms / 1000)\<close>: the nearest integer, a half rounded up.\<close>

definition roundSec :: "int \<Rightarrow> int" where
  "roundSec ms = \<lfloor>(of_int ms :: rat) / 1000 + 1 / 2\<rfloor>"

text \<open>
  The record literal of \<^verbatim>\<open>stop(reason = "user")\<close>, from the cells of the render whose
  \<^verbatim>\<open>stop\<close> runs: \<open>None\<close> is a call without argument, and \<^verbatim>\<open>x || y\<close> is \<open>y\<close> when \<open>x\<close> is
  \<open>0\<close> or \<^verbatim>\<open>null\<close>.
\<close>

definition mkRecord :: "clock \<Rightarrow> string option \<Rightarrow> state \<Rightarrow> srecord" where
  "mkRecord clk reason_arg s =
     \<lparr>date = iso clk,
      problemsCount =
        (if length (problems s) \<noteq> 0 then of_nat (length (problems s)) else numProblems s),
      solved = score s,
      total =
        (if length (problems s) \<noteq> 0 then of_nat (length (problems s)) else numProblems s),
      durationSec =
        roundSec (now1 clk -
          (case startTime s of None \<Rightarrow> now2 clk
           | Some t \<Rightarrow> if t = 0 then now2 clk else t)),
      reason = (case reason_arg of None \<Rightarrow> ''user'' | Some r \<Rightarrow> r)\<rparr>"

text \<open>
  \<^verbatim>\<open>stop\<close> of the render with cells \<open>c\<close>, run when the cells are \<open>s\<close>: the record and
  the new history are built from \<open>c\<close>, and \<^verbatim>\<open>setRunning\<close>, \<^verbatim>\<open>setHistory\<close> and
  \<^verbatim>\<open>localStorage.setItem\<close> write them. The function has no test of \<^verbatim>\<open>running\<close>.
\<close>

definition stop_from :: "state \<Rightarrow> (srecord list \<Rightarrow> string) \<Rightarrow> clock \<Rightarrow> string option \<Rightarrow> state \<Rightarrow> state" where
  "stop_from c JSON_stringify clk reason_arg s =
     (let record = mkRecord clk reason_arg c;
          newHist = take 50 (record # history c)
      in s\<lparr>running := False, history := newHist,
           storage := Some (JSON_stringify newHist)\<rparr>)"

text \<open>\<^verbatim>\<open>stop\<close> of the current render, as the Stop button calls it: its \<^verbatim>\<open>onClick\<close> is
  created anew by every render.\<close>

definition stop :: "(srecord list \<Rightarrow> string) \<Rightarrow> clock \<Rightarrow> string option \<Rightarrow> state \<Rightarrow> state" where
  "stop JSON_stringify clk reason_arg s = stop_from s JSON_stringify clk reason_arg s"

text \<open>
  \<^verbatim>\<open>checkAnswer\<close> (the spec's \<^verbatim>\<open>submitAnswer\<close>) of the render with cells \<open>c\<close>. The score is
  written by \<^verbatim>\<open>setScore((s) => s + 1)\<close>, which reads the current cell.
\<close>

definition checkAnswer_from :: "state \<Rightarrow> string \<Rightarrow> state \<Rightarrow> state" where
  "checkAnswer_from c userAnswer s =
     (if \<not> running c then s
      else if length (problems c) \<le> index c then s
      else
        (let p = problems c ! index c;
             correct' = p_a p + p_b p;
             parsed = parseInt (trim userAnswer);
             ok' = (case parsed of None \<Rightarrow> False | Some z \<Rightarrow> round64 (of_int z) = correct');
             s1 = s\<lparr>feedback := Some \<lparr>ok = ok', correct = Some correct'\<rparr>\<rparr>;
             s2 = (if ok' then s1\<lparr>score := score s1 + 1\<rparr> else s1)
         in if autoNext c then s2\<lparr>pendingNext := pendingNext s2 + 1\<rparr> else s2))"

definition checkAnswer :: "string \<Rightarrow> state \<Rightarrow> state" where
  "checkAnswer userAnswer s = checkAnswer_from s userAnswer s"

text \<open>
  \<^verbatim>\<open>next\<close> (the spec's \<^verbatim>\<open>advance\<close>) of the render with cells \<open>c\<close>; the index is written by
  \<^verbatim>\<open>setIndex((i) => i + 1)\<close>, and the \<^verbatim>\<open>stop\<close> it calls is that of the same render. The
  clock is read only when it calls \<^verbatim>\<open>stop("finished")\<close>. The callback of
  \<^verbatim>\<open>setTimeout(() => next(), 500)\<close> is the \<^verbatim>\<open>next\<close> of the render whose \<^verbatim>\<open>checkAnswer\<close>
  scheduled it.
\<close>

definition next_from :: "state \<Rightarrow> (srecord list \<Rightarrow> string) \<Rightarrow> clock \<Rightarrow> state \<Rightarrow> state" where
  "next_from c JSON_stringify clk s =
     (let s1 = s\<lparr>answer := [], feedback := None\<rparr>
      in if index c + 1 < length (problems c) then s1\<lparr>index := index s1 + 1\<rparr>
         else stop_from c JSON_stringify clk (Some ''finished'') s1)"

definition "next" :: "(srecord list \<Rightarrow> string) \<Rightarrow> clock \<Rightarrow> state \<Rightarrow> state" where
  "next JSON_stringify clk s = next_from s JSON_stringify clk s"

text \<open>The setter behind the count field, \<^verbatim>\<open>setNumProblems(Number(e.target.value))\<close>; the
  field is not disabled during a run.\<close>

definition setNumProblems :: "rat \<Rightarrow> state \<Rightarrow> state" where
  "setNumProblems v s = s\<lparr>numProblems := v\<rparr>"

section \<open>The timer\<close>

text \<open>
  The body of the timer effect: with \<^verbatim>\<open>running\<close> and \<^verbatim>\<open>timePerProblem > 0\<close> it sets
  \<^verbatim>\<open>let timeLeft = timePerProblem\<close>, resets \<^verbatim>\<open>elapsed\<close> and starts the interval. The
  result is the \<^verbatim>\<open>timeLeft\<close> of the interval started, \<open>None\<close> when none is.
\<close>

definition timerEffect :: "state \<Rightarrow> rat option \<times> state" where
  "timerEffect s =
     (if \<not> running s then (None, s)
      else if timePerProblem s > 0 then (Some (timePerProblem s), s\<lparr>elapsed := 0\<rparr>)
      else (None, s))"

text \<open>The interval callback, on the pair of \<^verbatim>\<open>timeLeft\<close> and the state.\<close>

definition tick :: "(srecord list \<Rightarrow> string) \<Rightarrow> clock \<Rightarrow> rat \<times> state \<Rightarrow> rat \<times> state" where
  "tick JSON_stringify clk ts =
     (let timeLeft = fst ts - 1;
          s = snd ts;
          s1 = s\<lparr>elapsed := elapsed s + 1\<rparr>
      in if timeLeft \<le> 0 then
           (let s2 = s1\<lparr>feedback := Some \<lparr>ok = False,
                       correct = (if index s < length (problems s)
                                  then Some (p_a (problems s ! index s) + p_b (problems s ! index s))
                                  else None)\<rparr>\<rparr>
            in (timeLeft, if autoNext s then next JSON_stringify clk s2 else s2))
         else (timeLeft, s1))"

section \<open>Loading the history\<close>

text \<open>A value that \<^verbatim>\<open>JSON.parse\<close> returns.\<close>

datatype json =
    JNull
  | JBool bool
  | JNumber rat
  | JString string
  | JArray "json list"
  | JObject "(string \<times> json) list"

datatype exn = Exn string

text \<open>
  The initializer of the \<^verbatim>\<open>history\<close> cell. \<open>getItem\<close> is what
  \<^verbatim>\<open>localStorage.getItem("math-trainer-history")\<close> does: it throws (\<open>Inl\<close>), or returns
  \<^verbatim>\<open>null\<close> (\<open>Inr None\<close>) or a text. \<open>JSON_parse\<close> throws on a text that is not JSON, and
  the \<^verbatim>\<open>catch\<close> gives the empty array; a value that it returns becomes the cell as it
  is, an array or not.
\<close>

definition loadHistory :: "(string \<Rightarrow> exn + json) \<Rightarrow> exn + string option \<Rightarrow> json" where
  "loadHistory JSON_parse getItem =
     (case getItem of
        Inl e \<Rightarrow> JArray []
      | Inr None \<Rightarrow> JArray []
      | Inr (Some raw) \<Rightarrow>
          (if raw = [] then JArray []
           else (case JSON_parse raw of Inl e \<Rightarrow> JArray [] | Inr v \<Rightarrow> v)))"

text \<open>
  What every render does with the cell before it builds a row: it reads
  \<^verbatim>\<open>history.length\<close>, which throws on \<^verbatim>\<open>null\<close>, and calls \<^verbatim>\<open>history.map\<close>, which only an
  array has. \<open>Inr n\<close>: \<^verbatim>\<open>map\<close> runs over \<open>n\<close> entries.
\<close>

fun historyRows :: "json \<Rightarrow> exn + nat" where
  "historyRows JNull = Inl (Exn ''TypeError'')"
| "historyRows (JArray hs) = Inr (length hs)"
| "historyRows v = Inl (Exn ''TypeError'')"

text \<open>
  The state of the first render: the initial values of the \<^verbatim>\<open>useState\<close> cells, with
  the history \<open>hist\<close> loaded, a list of records, and \<open>stored\<close> the stored text.
\<close>

definition init :: "srecord list \<Rightarrow> string option \<Rightarrow> state" where
  "init hist stored =
     \<lparr>minOperand = 0, maxOperand = 20, numProblems = 20, timePerProblem = 0,
      autoNext = True, shuffle = True, running = False, problems = [], index = 0,
      answer = [], feedback = None, score = 0, startTime = None, elapsed = 0,
      history = hist, storage = stored, pendingNext = 0\<rparr>"

section \<open>Runs\<close>

text \<open>\<^verbatim>\<open>next\<close> called once for every clock reading of the list, in order.\<close>

fun advances :: "(srecord list \<Rightarrow> string) \<Rightarrow> clock list \<Rightarrow> state \<Rightarrow> state" where
  "advances JSON_stringify [] s = s"
| "advances JSON_stringify (clk # clks) s = advances JSON_stringify clks (next JSON_stringify clk s)"

text \<open>\<^verbatim>\<open>stop\<close> called once for every pair of clock reading and reason, in order.\<close>

fun stops :: "(srecord list \<Rightarrow> string) \<Rightarrow> (clock \<times> string option) list \<Rightarrow> state \<Rightarrow> state" where
  "stops JSON_stringify [] s = s"
| "stops JSON_stringify (c # cs) s = stops JSON_stringify cs (stop JSON_stringify (fst c) (snd c) s)"

text \<open>The interval firing \<open>k\<close> times with nothing in between; the ticks that reach
  \<^verbatim>\<open>next\<close> read the clock \<open>clk\<close>.\<close>

fun ticks :: "(srecord list \<Rightarrow> string) \<Rightarrow> clock \<Rightarrow> nat \<Rightarrow> rat \<times> state \<Rightarrow> rat \<times> state" where
  "ticks JSON_stringify clk 0 ts = ts"
| "ticks JSON_stringify clk (Suc k) ts = tick JSON_stringify clk (ticks JSON_stringify clk k ts)"

text \<open>\<^verbatim>\<open>checkAnswer\<close> called \<open>k\<close> times with the same text.\<close>

fun submits :: "nat \<Rightarrow> string \<Rightarrow> state \<Rightarrow> state" where
  "submits 0 raw s = s"
| "submits (Suc k) raw s = checkAnswer raw (submits k raw s)"

section \<open>Example inputs\<close>

text \<open>
  Inputs for the examples below: what \<^verbatim>\<open>JSON.parse\<close> does on four texts, a stand-in
  for \<^verbatim>\<open>JSON.stringify\<close> (one letter per record), one clock reading, and the states
  after \<^verbatim>\<open>start\<close> on the draws \<open>0, 1/4, 1/2, 3/4\<close> without shuffle: \<open>example_run\<close> with
  a count of 2 and no auto-advance, \<open>example_single\<close> with a count of 1 and the
  auto-advance of the first render.
\<close>

definition example_parse :: "string \<Rightarrow> exn + json" where
  "example_parse raw =
     (if raw = ''[]'' then Inr (JArray [])
      else if raw = ''{}'' then Inr (JObject [])
      else if raw = ''null'' then Inr JNull
      else Inl (Exn ''SyntaxError''))"

definition example_stringify :: "srecord list \<Rightarrow> string" where
  "example_stringify h = replicate (length h) CHR ''r''"

definition example_clock :: clock where
  "example_clock = \<lparr>iso = ''2024-01-01T00:00:05.000Z'', now1 = 5000, now2 = 5000\<rparr>"

definition example_run :: state where
  "example_run =
     fst (start (\<lambda>i. of_nat i / 4) 1000
            ((init [] None)\<lparr>numProblems := 2, autoNext := False, shuffle := False\<rparr>))"

definition example_single :: state where
  "example_single =
     fst (start (\<lambda>i. of_nat i / 4) 1000 ((init [] None)\<lparr>numProblems := 1, shuffle := False\<rparr>))"


section \<open>Properties of the rounding\<close>

lemma roundHalfEven_int: "roundHalfEven (of_int m) = m"
  by (simp add: roundHalfEven_def)



lemma ilog2_lower:
  assumes "0 < x"
  shows "2 powi (ilog2 x) \<le> x"
proof -
  obtain p q where pq: "quotient_of x = (p, q)"
    by (cases "quotient_of x") auto
  have q: "0 < q"
    using pq by (rule quotient_of_denom_pos)
  have x: "x = of_int p / of_int q"
    using pq by (rule quotient_of_div)
  have p: "0 < p"
    using assms q x by (simp add: zero_less_divide_iff)
  define d where "d = bitlen p - bitlen q"
  show ?thesis
  proof (cases "2 powi d \<le> x")
    case True
    then show ?thesis by (simp add: ilog2_def pq d_def)
  next
    case False
    have bp: "1 \<le> bitlen p" and bq: "1 \<le> bitlen q"
      using p q by (simp_all add: bitlen_alt_def)
    have lo: "(2::int) ^ nat (bitlen p - 1) \<le> p"
      using bitlen_bounds[OF p] by simp
    have hi: "q < (2::int) ^ nat (bitlen q)"
      using bitlen_bounds[OF q] by simp
    have lo': "(2::rat) powi (bitlen p - 1) \<le> of_int p"
    proof -
      have "(2::rat) powi (bitlen p - 1) = 2 ^ nat (bitlen p - 1)"
        using bp by (simp add: power_int_def)
      also have "\<dots> = of_int (2 ^ nat (bitlen p - 1))"
        by simp
      also have "\<dots> \<le> of_int p"
        using lo by (simp only: of_int_le_iff)
      finally show ?thesis .
    qed
    have hi': "of_int q \<le> (2::rat) powi (bitlen q)"
    proof -
      have "(of_int q :: rat) \<le> of_int (2 ^ nat (bitlen q))"
        using hi by (simp only: of_int_le_iff less_imp_le)
      also have "\<dots> = 2 ^ nat (bitlen q)"
        by simp
      also have "\<dots> = (2::rat) powi (bitlen q)"
        using bq by (simp add: power_int_def)
      finally show ?thesis .
    qed
    have "(2::rat) powi (d - 1) = 2 powi (bitlen p - 1) / 2 powi (bitlen q)"
      by (simp add: d_def power_int_diff)
    also have "\<dots> \<le> of_int p / 2 powi (bitlen q)"
      using lo' by (simp add: divide_right_mono)
    also have "\<dots> \<le> of_int p / of_int q"
      using hi' p q by (intro divide_left_mono) simp_all
    finally have "(2::rat) powi (d - 1) \<le> x"
      by (simp add: x)
    with False show ?thesis
      by (simp add: ilog2_def pq d_def)
  qed
qed

lemma pow2_big: "(2::rat) ^ 53 < 2 powi 1024"
proof -
  have "(2::rat) ^ 53 = 2 powi 53" by simp
  also have "\<dots> < 2 powi 1024"
    by (rule power_int_strict_increasing) simp_all
  finally show ?thesis .
qed

lemma ilog2_le:
  assumes "0 < x" "x < 2 powi b"
  shows "ilog2 x < b"
proof (rule ccontr)
  assume "\<not> ilog2 x < b"
  then have "b \<le> ilog2 x" by simp
  then have "(2::rat) powi b \<le> 2 powi (ilog2 x)"
    by (intro power_int_increasing) simp_all
  also have "\<dots> \<le> x"
    using assms(1) by (rule ilog2_lower)
  finally show False
    using assms(2) by simp
qed

lemma round64_int:
  assumes "\<bar>n\<bar> < 2 ^ 53"
  shows "round64 (of_int n) = Num (of_int n)"
proof (cases "n = 0")
  case True
  then show ?thesis by (simp add: round64_def)
next
  case False
  let ?x = "of_int n :: rat"
  define e where "e = max (ilog2 \<bar>?x\<bar>) (- 1022)"
  have pos: "0 < \<bar>?x\<bar>"
    using False by simp
  have "\<bar>?x\<bar> = of_int \<bar>n\<bar>"
    by simp
  also have "\<dots> < of_int (2 ^ 53)"
    using assms by (simp only: of_int_less_iff)
  finally have "\<bar>?x\<bar> < 2 powi 53"
    by simp
  from ilog2_le[OF pos this] have e: "e \<le> 52"
    by (simp add: e_def)
  define m where "m = nat (52 - e)"
  have q: "(2::rat) powi (e - 52) = 1 / 2 ^ m"
  proof -
    have "(2::rat) powi (e - 52) = 2 powi (- int m)"
      using e by (simp add: m_def)
    also have "\<dots> = 1 / 2 ^ m"
      by (simp add: power_int_minus divide_inverse)
    finally show ?thesis .
  qed
  have "?x / (2 powi (e - 52)) = of_int (n * 2 ^ m)"
    by (simp add: q)
  then have r: "roundHalfEven (?x / (2 powi (e - 52))) = n * 2 ^ m"
    by (simp only: roundHalfEven_int)
  have y: "of_int (n * 2 ^ m) * (2::rat) powi (e - 52) = ?x"
    by (simp add: q)
  have "\<bar>?x\<bar> < 2 powi 1024"
    using \<open>\<bar>?x\<bar> < 2 powi 53\<close> pow2_big by simp
  then have big: "\<not> 2 powi 1024 \<le> \<bar>?x\<bar>"
    by simp
  show ?thesis
    unfolding round64_def Let_def e_def[symmetric] r y
    using False big by simp
qed





lemma ilog2_upper:
  assumes "0 < x"
  shows "x < 2 powi (ilog2 x + 1)"
proof -
  obtain p q where pq: "quotient_of x = (p, q)"
    by (cases "quotient_of x") auto
  have q: "0 < q"
    using pq by (rule quotient_of_denom_pos)
  have x: "x = of_int p / of_int q"
    using pq by (rule quotient_of_div)
  have p: "0 < p"
    using assms q x by (simp add: zero_less_divide_iff)
  define d where "d = bitlen p - bitlen q"
  show ?thesis
  proof (cases "2 powi d \<le> x")
    case False
    then show ?thesis by (simp add: ilog2_def pq d_def)
  next
    case True
    have bp: "1 \<le> bitlen p" and bq: "1 \<le> bitlen q"
      using p q by (simp_all add: bitlen_alt_def)
    have hi: "p < (2::int) ^ nat (bitlen p)"
      using bitlen_bounds[OF p] by simp
    have lo: "(2::int) ^ nat (bitlen q - 1) \<le> q"
      using bitlen_bounds[OF q] by simp
    have hi': "of_int p < (2::rat) powi (bitlen p)"
    proof -
      have "(of_int p :: rat) < of_int (2 ^ nat (bitlen p))"
        using hi by (simp only: of_int_less_iff)
      also have "\<dots> = 2 ^ nat (bitlen p)"
        by simp
      also have "\<dots> = (2::rat) powi (bitlen p)"
        using bp by (simp add: power_int_def)
      finally show ?thesis .
    qed
    have lo': "(2::rat) powi (bitlen q - 1) \<le> of_int q"
    proof -
      have "(2::rat) powi (bitlen q - 1) = 2 ^ nat (bitlen q - 1)"
        using bq by (simp add: power_int_def)
      also have "\<dots> = of_int (2 ^ nat (bitlen q - 1))"
        by simp
      also have "\<dots> \<le> of_int q"
        using lo by (simp only: of_int_le_iff)
      finally show ?thesis .
    qed
    have "x = of_int p / of_int q"
      by (rule x)
    also have "\<dots> < 2 powi (bitlen p) / of_int q"
      using hi' q by (simp add: divide_strict_right_mono)
    also have "\<dots> \<le> 2 powi (bitlen p) / 2 powi (bitlen q - 1)"
      using lo' q by (intro divide_left_mono mult_pos_pos) simp_all
    also have "\<dots> = (2::rat) powi (bitlen p - (bitlen q - 1))"
      by (rule power_int_diff[symmetric]) simp
    also have "bitlen p - (bitlen q - 1) = d + 1"
      by (simp add: d_def)
    finally have "x < 2 powi (d + 1)" .
    with True show ?thesis
      by (simp add: ilog2_def pq d_def)
  qed
qed


lemma ilog2_ge:
  assumes "0 < x" "2 powi b \<le> x"
  shows "b \<le> ilog2 x"
proof (rule ccontr)
  assume "\<not> b \<le> ilog2 x"
  then have "ilog2 x + 1 \<le> b" by simp
  then have "(2::rat) powi (ilog2 x + 1) \<le> 2 powi b"
    by (intro power_int_increasing) simp_all
  also have "\<dots> \<le> x"
    by (rule assms(2))
  finally show False
    using ilog2_upper[OF assms(1)] by simp
qed

lemma ilog2_unique:
  assumes "2 powi e \<le> x" "x < 2 powi (e + 1)"
  shows "ilog2 x = e"
proof -
  have "(0::rat) < 2 powi e"
    by simp
  then have x0: "0 < x"
    using assms(1) by (rule less_le_trans)
  have "e \<le> ilog2 x"
    using x0 assms(1) by (rule ilog2_ge)
  moreover have "ilog2 x < e + 1"
    using x0 assms(2) by (rule ilog2_le)
  ultimately show ?thesis
    by simp
qed



lemma round64_dyadic:
  assumes "\<bar>n\<bar> < 2 ^ 53" "j \<le> 1074"
  shows "round64 (of_int n / 2 ^ j) = Num (of_int n / 2 ^ j)"
proof (cases "n = 0")
  case True
  then show ?thesis by (simp add: round64_def)
next
  case False
  let ?x = "of_int n / 2 ^ j :: rat"
  define e where "e = max (ilog2 \<bar>?x\<bar>) (- 1022)"
  have pos: "0 < \<bar>?x\<bar>"
    using False by simp
  have "(of_int \<bar>n\<bar> :: rat) < of_int (2 ^ 53)"
    using assms(1) by (simp only: of_int_less_iff)
  then have "(of_int \<bar>n\<bar> :: rat) / 2 ^ j < 2 ^ 53 / 2 ^ j"
    by (simp add: divide_strict_right_mono)
  moreover have "\<bar>?x\<bar> = of_int \<bar>n\<bar> / 2 ^ j"
    by simp
  moreover have "(2::rat) ^ 53 / 2 ^ j = 2 powi (53 - int j)"
  proof -
    have "(2::rat) powi (53 - int j) = 2 powi 53 / 2 powi (int j)"
      by (rule power_int_diff) simp
    then show ?thesis by simp
  qed
  ultimately have "\<bar>?x\<bar> < 2 powi (53 - int j)"
    by (simp only:)
  from ilog2_le[OF pos this] have e: "e \<le> 52 - int j"
    using assms(2) by (simp add: e_def)
  define m where "m = nat (52 - int j - e)"
  have q: "(2::rat) powi (e - 52) = 1 / (2 ^ m * 2 ^ j)"
  proof -
    have "e - 52 = - int (m + j)"
      using e by (simp add: m_def)
    then have "(2::rat) powi (e - 52) = 2 powi (- int (m + j))"
      by (simp only:)
    also have "\<dots> = inverse (2 powi (int (m + j)))"
      by (rule power_int_minus)
    also have "\<dots> = inverse (2 ^ (m + j))"
      by (simp only: power_int_of_nat)
    also have "\<dots> = 1 / (2 ^ m * 2 ^ j)"
      by (simp only: power_add inverse_eq_divide)
    finally show ?thesis .
  qed
  have "?x / (2 powi (e - 52)) = of_int (n * 2 ^ m)"
    by (simp add: q)
  then have r: "roundHalfEven (?x / (2 powi (e - 52))) = n * 2 ^ m"
    by (simp only: roundHalfEven_int)
  have y: "of_int (n * 2 ^ m) * (2::rat) powi (e - 52) = ?x"
    by (simp add: q)
  have "\<bar>?x\<bar> \<le> of_int \<bar>n\<bar>"
  proof -
    have "(of_int \<bar>n\<bar> :: rat) / 2 ^ j \<le> of_int \<bar>n\<bar> / 1"
      by (intro divide_left_mono) simp_all
    then show ?thesis by simp
  qed
  also have "(of_int \<bar>n\<bar> :: rat) < of_int (2 ^ 53)"
    using assms(1) by (simp only: of_int_less_iff)
  also have "(of_int (2 ^ 53) :: rat) = 2 ^ 53"
    by simp
  also have "(2::rat) ^ 53 < 2 powi 1024"
    by (rule pow2_big)
  finally have big: "\<not> 2 powi 1024 \<le> \<bar>?x\<bar>"
    by simp
  have "?x \<noteq> 0"
    using False by simp
  then show ?thesis
    unfolding round64_def Let_def e_def[symmetric] r y
    using big by (simp only: if_False)
qed

lemma round64_normal:
  assumes "2 powi e \<le> x" "x < 2 powi (e + 1)" "- 1022 \<le> e"
    and "y = of_int (roundHalfEven (x / 2 powi (e - 52))) * 2 powi (e - 52)"
    and "\<bar>y\<bar> < 2 powi 1024"
  shows "round64 x = Num y"
proof -
  have "(0::rat) < 2 powi e"
    by simp
  then have x0: "0 < x"
    using assms(1) by (rule less_le_trans)
  have "ilog2 x = e"
    using assms(1,2) by (rule ilog2_unique)
  then have mx: "max (ilog2 \<bar>x\<bar>) (- 1022) = e"
    using x0 assms(3) by simp
  have big: "\<not> 2 powi 1024 \<le> \<bar>y\<bar>"
    using assms(5) by simp
  have "x \<noteq> 0"
    using x0 by simp
  then show ?thesis
    unfolding round64_def Let_def mx assms(4)[symmetric]
    using big by (simp only: if_False)
qed

lemma floor_divide_numeral_rat: "\<lfloor>(numeral a :: rat) / numeral b\<rfloor> = numeral a div numeral b"
  by (metis floor_divide_of_int_eq of_int_numeral)

lemma floor_one_divide_numeral_rat: "\<lfloor>1 / (numeral b :: rat)\<rfloor> = 1 div numeral b"
  by (metis floor_divide_of_int_eq of_int_1 of_int_numeral)


lemma round64_5: "round64 5 = Num 5"
  using round64_int[of 5] by simp


section \<open>Properties of the generator\<close>





lemma sort_insert_mset: "mset (fst (sort_insert x ys rnd)) = add_mset x (mset ys)"
  by (induction x ys rnd rule: sort_insert.induct) (auto split: prod.splits)

lemma sort_random_mset: "mset (fst (sort_random xs rnd)) = mset xs"
  by (induction xs rnd rule: sort_random.induct) (auto split: prod.splits simp: sort_insert_mset dest: arg_cong[where f=fst])

lemma randInt_via_product:
  assumes le: "lo \<le> hi" and lo: "\<bar>lo\<bar> \<le> 2 ^ 51" and hi: "\<bar>hi\<bar> \<le> 2 ^ 51"
    and y: "round64 (r * of_int (hi - lo + 1)) = Num y" "0 \<le> y" "y < of_int (hi - lo + 1)"
  shows "randInt (of_int lo) (of_int hi) r = Num (of_int (\<lfloor>y\<rfloor> + lo))"
proof -
  define k where "k = hi - lo + 1"
  have k1: "1 \<le> k" and k2: "k \<le> 2 ^ 52 + 1"
    using le lo hi by (simp_all add: k_def)
  have "\<bar>hi - lo\<bar> < 2 ^ 53"
    using lo hi by simp
  from round64_int[OF this]
  have d: "Num (of_int hi) - Num (of_int lo) = Num (of_int (hi - lo))"
    by (simp add: minus_jsnum_def)
  have "\<bar>k\<bar> < 2 ^ 53"
    using k1 k2 by simp
  from round64_int[OF this]
  have s: "Num (of_int (hi - lo)) + Num 1 = Num (of_int k)"
    by (simp add: plus_jsnum_def k_def)
  define f where "f = \<lfloor>y\<rfloor>"
  have f0: "0 \<le> f"
    using y(2) by (simp add: f_def)
  have f1: "f < k"
    unfolding f_def k_def using y(3) by (simp only: floor_less_iff)
  have "\<bar>f + lo\<bar> < 2 ^ 53"
    using f0 f1 lo hi unfolding k_def by simp
  from round64_int[OF this]
  have t: "Num (of_int f) + Num (of_int lo) = Num (of_int (f + lo))"
    by (simp add: plus_jsnum_def)
  have m: "Num r * Num (of_int k) = Num y"
    by (simp only: times_jsnum_def jmul.simps y(1) k_def)
  have fl: "jfloor (Num y) = Num (of_int f)"
    by (simp only: jfloor.simps f_def)
  show ?thesis
    by (simp only: randInt_def d s m fl t flip: f_def)
qed

text \<open>
  Three values of \<^verbatim>\<open>randInt\<close>: the draws of the examples; the draw
  \<open>0.6666666666666666\<close> with the bounds 0 and 2, where the product rounds up to 2; and
  the overflow at the bounds \<open>-2^1023\<close> and \<open>2^1023\<close>.
\<close>

lemma randInt_examples:
  "randInt 0 20 0 = Num 0" "randInt 0 20 (1 / 4) = Num 5"
  "randInt 0 20 (1 / 2) = Num 10" "randInt 0 20 (3 / 4) = Num 15"
proof -
  have b: "(0::int) \<le> 20" "\<bar>0::int\<bar> \<le> 2 ^ 51" "\<bar>20::int\<bar> \<le> 2 ^ 51"
    by simp_all
  have r0: "round64 (0 * of_int (20 - 0 + 1)) = Num 0"
    by (simp add: round64_def)
  have r1: "round64 (1 / 4 * of_int (20 - 0 + 1)) = Num (21 / 4)"
    using round64_dyadic[of 21 2] by simp
  have r2: "round64 (1 / 2 * of_int (20 - 0 + 1)) = Num (21 / 2)"
    using round64_dyadic[of 21 1] by simp
  have r3: "round64 (3 / 4 * of_int (20 - 0 + 1)) = Num (63 / 4)"
    using round64_dyadic[of 63 2] by simp
  show "randInt 0 20 0 = Num 0"
    using randInt_via_product[OF b r0] by simp
  show "randInt 0 20 (1 / 4) = Num 5"
    using randInt_via_product[OF b r1] by (simp add: floor_divide_numeral_rat)
  show "randInt 0 20 (1 / 2) = Num 10"
    using randInt_via_product[OF b r2] by (simp add: floor_divide_numeral_rat)
  show "randInt 0 20 (3 / 4) = Num 15"
    using randInt_via_product[OF b r3] by (simp add: floor_divide_numeral_rat)
qed

lemma randInt_tie_example: "randInt 0 2 (6004799503160661 / 2 ^ 53) = Num 2"
proof -
  have b: "(0::int) \<le> 2" "\<bar>0::int\<bar> \<le> 2 ^ 51" "\<bar>2::int\<bar> \<le> 2 ^ 51"
    by simp_all
  have "round64 (18014398509481983 / 2 ^ 53) = Num 2"
  proof (rule round64_normal[where e = 0])
    show "(2::rat) powi 0 \<le> 18014398509481983 / 2 ^ 53"
      by simp
    show "(18014398509481983::rat) / 2 ^ 53 < 2 powi (0 + 1)"
      by simp
    show "- 1022 \<le> (0::int)"
      by simp
    show "(2::rat) = of_int (roundHalfEven (18014398509481983 / 2 ^ 53 / 2 powi (0 - 52))) * 2 powi (0 - 52)"
      by (simp add: roundHalfEven_def floor_divide_numeral_rat Let_def)
    show "\<bar>2::rat\<bar> < 2 powi 1024"
      by simp
  qed
  then have r: "round64 (6004799503160661 / 2 ^ 53 * of_int (2 - 0 + 1)) = Num 2"
    by simp
  show ?thesis
    using randInt_via_product[OF b r] by simp
qed


lemma example_run_eq:
  "example_run =
     \<lparr>minOperand = 0, maxOperand = 20, numProblems = 2, timePerProblem = 0,
      autoNext = False, shuffle = False, running = True,
      problems = [\<lparr>p_a = Num 0, p_b = Num 5, p_op = ''+'', p_id = (Num 0, Num 5, 0)\<rparr>,
                  \<lparr>p_a = Num 10, p_b = Num 15, p_op = ''+'', p_id = (Num 10, Num 15, 1)\<rparr>],
      index = 0, answer = [], feedback = None, score = 0, startTime = Some 1000, elapsed = 0,
      history = [], storage = None, pendingNext = 0\<rparr>"
  by (simp add: example_run_def start_def makeProblems_def gen_loop.simps shift_def
      init_def Let_def randInt_examples)

lemma example_single_eq:
  "example_single =
     \<lparr>minOperand = 0, maxOperand = 20, numProblems = 1, timePerProblem = 0,
      autoNext = True, shuffle = False, running = True,
      problems = [\<lparr>p_a = Num 0, p_b = Num 5, p_op = ''+'', p_id = (Num 0, Num 5, 0)\<rparr>],
      index = 0, answer = [], feedback = None, score = 0, startTime = Some 1000, elapsed = 0,
      history = [], storage = None, pendingNext = 0\<rparr>"
  by (simp add: example_single_def start_def makeProblems_def gen_loop.simps shift_def
      init_def Let_def randInt_examples)

lemma example_sum: "Num 0 + Num 5 = Num 5"
  by (simp add: plus_jsnum_def round64_5)

section \<open>Properties of the answer reader and the handlers\<close>














lemma mkRecord_cong:
  "problems s' = problems s \<Longrightarrow> numProblems s' = numProblems s \<Longrightarrow> score s' = score s \<Longrightarrow>
   startTime s' = startTime s \<Longrightarrow> mkRecord clk r s' = mkRecord clk r s"
  by (simp add: mkRecord_def)

lemma stop_fields:
  "running (stop J clk r s) = False"
  "history (stop J clk r s) = take 50 (mkRecord clk r s # history s)"
  "storage (stop J clk r s) = Some (J (take 50 (mkRecord clk r s # history s)))"
  by (simp_all add: stop_def stop_from_def Let_def)

lemma next_step:
  "index s + 1 < length (problems s) \<Longrightarrow>
   next J clk s = s\<lparr>answer := [], feedback := None, index := index s + 1\<rparr>"
  by (simp add: next_def next_from_def stop_def stop_from_def mkRecord_def Let_def)

lemma next_last:
  "\<not> index s + 1 < length (problems s) \<Longrightarrow>
   next J clk s = stop J clk (Some ''finished'') (s\<lparr>answer := [], feedback := None\<rparr>)"
  by (simp add: next_def next_from_def stop_def stop_from_def mkRecord_def Let_def)

lemma advances_append: "advances J (xs @ ys) s = advances J ys (advances J xs s)"
  by (induction xs arbitrary: s) simp_all

lemma advances_before:
  "index s + length clks < length (problems s) \<Longrightarrow>
   advances J clks s =
     (if clks = [] then s else s\<lparr>answer := [], feedback := None, index := index s + length clks\<rparr>)"
proof (induction clks arbitrary: s)
  case Nil
  show ?case by simp
next
  case (Cons clk clks)
  let ?s1 = "s\<lparr>answer := [], feedback := None, index := index s + 1\<rparr>"
  have n: "next J clk s = ?s1"
    using Cons.prems by (simp add: next_step)
  have "index ?s1 + length clks < length (problems ?s1)"
    using Cons.prems by simp
  from Cons.IH[OF this] show ?case
    by (simp add: n)
qed

lemma stops_append: "stops J (xs @ ys) s = stops J ys (stops J xs s)"
  by (induction xs arbitrary: s) simp_all

lemma checkAnswer_correct:
  assumes "running s" "index s < length (problems s)" "parseInt (trim raw) = Some z"
    "round64 (of_int z) = p_a (problems s ! index s) + p_b (problems s ! index s)"
  shows "checkAnswer raw s =
           (if autoNext s
            then s\<lparr>feedback := Some \<lparr>ok = True, correct = Some (round64 (of_int z))\<rparr>,
                   score := score s + 1, pendingNext := pendingNext s + 1\<rparr>
            else s\<lparr>feedback := Some \<lparr>ok = True, correct = Some (round64 (of_int z))\<rparr>,
                   score := score s + 1\<rparr>)"
  using assms by (simp add: checkAnswer_def checkAnswer_from_def Let_def)

lemma checkAnswer_NaN:
  assumes "running s" "index s < length (problems s)" "parseInt (trim raw) = None"
  shows "feedback (checkAnswer raw s) =
           Some \<lparr>ok = False, correct = Some (p_a (problems s ! index s) + p_b (problems s ! index s))\<rparr>"
  using assms by (simp add: checkAnswer_def checkAnswer_from_def Let_def)

lemma submits_fields:
  assumes "running s" "index s < length (problems s)" "parseInt (trim raw) = Some z"
    "round64 (of_int z) = p_a (problems s ! index s) + p_b (problems s ! index s)"
  shows "running (submits k raw s) \<and> index (submits k raw s) = index s \<and>
         problems (submits k raw s) = problems s \<and> score (submits k raw s) = score s + k \<and>
         history (submits k raw s) = history s"
proof (induction k)
  case 0
  show ?case using assms(1) by simp
next
  case (Suc k)
  let ?t = "submits k raw s"
  have t: "running ?t" "index ?t < length (problems ?t)"
    "round64 (of_int z) = p_a (problems ?t ! index ?t) + p_b (problems ?t ! index ?t)"
    using Suc assms by simp_all
  show ?case
    using Suc by (simp add: checkAnswer_correct[OF t(1,2) assms(3) t(3)])
qed

lemma ticks_before:
  "of_nat k < t0 \<Longrightarrow> ticks J clk k (t0, s) = (t0 - of_nat k, s\<lparr>elapsed := elapsed s + k\<rparr>)"
proof (induction k)
  case 0
  show ?case by simp
next
  case (Suc k)
  have "of_nat k < t0"
    using Suc.prems by simp
  from Suc.IH[OF this] have eq: "ticks J clk k (t0, s) = (t0 - of_nat k, s\<lparr>elapsed := elapsed s + k\<rparr>)" .
  have "\<not> t0 - of_nat k - 1 \<le> 0"
    using Suc.prems by simp
  then show ?case
    by (simp add: eq tick_def Let_def algebra_simps)
qed

lemma trim_prefix: "\<exists>zs. dropWhile isWhiteSpace str = trim str @ zs"
proof -
  let ?ys = "dropWhile isWhiteSpace str"
  have "trim str @ rev (takeWhile isWhiteSpace (rev ?ys)) =
          rev (takeWhile isWhiteSpace (rev ?ys) @ dropWhile isWhiteSpace (rev ?ys))"
    by (simp only: trim_def rev_append)
  also have "\<dots> = rev (rev ?ys)"
    by (simp only: takeWhile_dropWhile_id)
  also have "\<dots> = ?ys"
    by simp
  finally have "?ys = trim str @ rev (takeWhile isWhiteSpace (rev ?ys))"
    by (rule sym)
  then show ?thesis ..
qed

lemma dropWhile_trim: "dropWhile isWhiteSpace (trim str) = trim str"
proof (cases "trim str")
  case Nil
  then show ?thesis by simp
next
  case (Cons c cs)
  obtain zs where z: "dropWhile isWhiteSpace str = trim str @ zs"
    using trim_prefix by blast
  then have "dropWhile isWhiteSpace str \<noteq> []" and "hd (dropWhile isWhiteSpace str) = c"
    using Cons by simp_all
  then have "\<not> isWhiteSpace c"
    using hd_dropWhile by metis
  then show ?thesis
    using Cons by simp
qed

lemma parseInt_trim_None_iff: "parseInt (trim raw) = None \<longleftrightarrow> \<not> startsWithInteger (trim raw)"
  unfolding parseInt_def Let_def dropWhile_trim startsWithInteger_def stripSign_def
  by (auto simp: takeWhile_eq_Nil_iff)



lemma parseInt_5: "parseInt (trim ''5'') = Some 5"
  by (simp add: parseInt_def trim_def isWhiteSpace_def isDigit_def digitsVal_def digitVal_def)

lemma example_single_answered:
  "checkAnswer ''5'' example_single =
     example_single\<lparr>feedback := Some \<lparr>ok = True, correct = Some (Num 5)\<rparr>, score := 1,
       pendingNext := 1\<rparr>"
proof -
  have h: "running example_single" "index example_single < length (problems example_single)"
    "round64 (of_int 5) =
       p_a (problems example_single ! index example_single) +
       p_b (problems example_single ! index example_single)"
    by (simp_all add: example_single_eq example_sum round64_5)
  show ?thesis
    using checkAnswer_correct[OF h(1,2) parseInt_5 h(3)]
    by (simp add: example_single_eq round64_5)
qed

lemma checkAnswer_idle: "\<not> running s \<Longrightarrow> checkAnswer raw s = s"
  by (simp add: checkAnswer_def checkAnswer_from_def)

lemma loadHistory_catch:
  "loadHistory JSON_parse (Inl e) = JArray []"
  "loadHistory JSON_parse (Inr None) = JArray []"
  "loadHistory JSON_parse (Inr (Some [])) = JArray []"
  "isl (JSON_parse raw) \<Longrightarrow> loadHistory JSON_parse (Inr (Some raw)) = JArray []"
  by (auto simp: loadHistory_def split: sum.splits)

section \<open>The claims on the generator\<close>




text \<open>
  Claim C9. The shuffled generation holds exactly the problems of the unshuffled one,
  each as often: the sort only reorders the array the loop has built, whatever the
  comparator answers.
\<close>

theorem shuffle_preserves_multiset:
  "mset (fst (makeProblems n minV maxV True rnd)) = mset (fst (makeProblems n minV maxV False rnd))"
proof -
  obtain arr rnd' where g: "gen_loop 0 n minV maxV rnd [] = (arr, rnd')"
    by (cases "gen_loop 0 n minV maxV rnd []") auto
  show ?thesis
    by (simp add: makeProblems_def g sort_random_mset)
qed

section \<open>The claims on the session controller\<close>

text \<open>
  Claim C1. From a running state at index 0 over \<open>n \<ge> 1\<close> problems, \<open>n\<close> calls of
  \<^verbatim>\<open>next\<close> (the spec's \<^verbatim>\<open>advance\<close>): after each of the first \<open>n - 1\<close> calls the
  controller is still running, at the next index, with the history and the stored
  text untouched; the \<open>n\<close>-th call ends the run, puts a record with \<open>total = n\<close> and
  reason \<^verbatim>\<open>"finished"\<close> at the head of the history (kept to 50), writes that history
  to the storage, and leaves the controller idle. Neither \<^verbatim>\<open>next\<close> nor \<^verbatim>\<open>stop\<close>
  reads \<^verbatim>\<open>autoNext\<close>.
\<close>

theorem advance_n_times_finishes:
  assumes run: "running s" and i0: "index s = 0" and len: "length (problems s) = n"
    and pos: "0 < n" and cl: "length clks = n"
  shows "(\<forall>k<n. running (advances J (take k clks) s) \<and>
                 index (advances J (take k clks) s) = k \<and>
                 history (advances J (take k clks) s) = history s \<and>
                 storage (advances J (take k clks) s) = storage s) \<and>
         \<not> running (advances J clks s) \<and>
         history (advances J clks s) =
           take 50 (mkRecord (last clks) (Some ''finished'') s # history s) \<and>
         storage (advances J clks s) = Some (J (history (advances J clks s))) \<and>
         total (mkRecord (last clks) (Some ''finished'') s) = of_nat n \<and>
         reason (mkRecord (last clks) (Some ''finished'') s) = ''finished''"
proof -
  have before: "running (advances J (take k clks) s) \<and>
                index (advances J (take k clks) s) = k \<and>
                history (advances J (take k clks) s) = history s \<and>
                storage (advances J (take k clks) s) = storage s" if "k < n" for k
  proof -
    have "index s + length (take k clks) < length (problems s)"
      using that cl len i0 by simp
    from advances_before[OF this]
    have eq: "advances J (take k clks) s =
                (if take k clks = [] then s
                 else s\<lparr>answer := [], feedback := None, index := index s + length (take k clks)\<rparr>)" .
    have lk: "length (take k clks) = k"
      using that cl by simp
    show ?thesis
    proof (cases "take k clks = []")
      case True
      with lk have "k = 0" by simp
      with True eq run i0 show ?thesis by simp
    next
      case False
      with eq lk run i0 show ?thesis by simp
    qed
  qed
  have ne: "clks \<noteq> []"
    using pos cl by auto
  then have split: "clks = butlast clks @ [last clks]"
    by simp
  let ?m = "advances J (butlast clks) s"
  have lb: "index s + length (butlast clks) < length (problems s)"
    using cl len i0 pos by simp
  have m: "?m = (if butlast clks = [] then s
                 else s\<lparr>answer := [], feedback := None, index := index s + length (butlast clks)\<rparr>)"
    by (rule advances_before[OF lb])
  have mi: "index ?m = n - 1" "problems ?m = problems s" "history ?m = history s"
    "numProblems ?m = numProblems s" "score ?m = score s" "startTime ?m = startTime s"
  proof -
    have lbl: "length (butlast clks) = n - 1"
      using cl by simp
    show "index ?m = n - 1"
    proof (cases "butlast clks = []")
      case True
      with lbl have "n - 1 = 0" by simp
      with True m i0 show ?thesis by simp
    next
      case False
      with m i0 lbl show ?thesis by simp
    qed
    show "problems ?m = problems s" "history ?m = history s"
      "numProblems ?m = numProblems s" "score ?m = score s" "startTime ?m = startTime s"
      by (simp_all add: m)
  qed
  have fin: "advances J clks s = stop J (last clks) (Some ''finished'') (?m\<lparr>answer := [], feedback := None\<rparr>)"
  proof -
    have "advances J clks s = next J (last clks) ?m"
      by (subst split) (simp only: advances_append advances.simps)
    moreover have "\<not> index ?m + 1 < length (problems ?m)"
      using mi len pos by simp
    then have "next J (last clks) ?m =
                 stop J (last clks) (Some ''finished'') (?m\<lparr>answer := [], feedback := None\<rparr>)"
      by (rule next_last)
    ultimately show ?thesis
      by (rule trans)
  qed
  have rec: "mkRecord (last clks) (Some ''finished'') (?m\<lparr>answer := [], feedback := None\<rparr>) =
             mkRecord (last clks) (Some ''finished'') s"
    by (rule mkRecord_cong) (simp_all add: mi)
  have h: "history (advances J clks s) = take 50 (mkRecord (last clks) (Some ''finished'') s # history s)"
    by (simp add: fin stop_fields rec mi del: take_Cons_numeral)
  have st: "storage (advances J clks s) = Some (J (history (advances J clks s)))"
    unfolding h by (simp add: fin stop_fields rec mi del: take_Cons_numeral)
  have r: "\<not> running (advances J clks s)"
    by (simp add: fin stop_fields)
  have t: "total (mkRecord (last clks) (Some ''finished'') s) = of_nat n"
    using len pos by (simp add: mkRecord_def)
  have re: "reason (mkRecord (last clks) (Some ''finished'') s) = ''finished''"
    by (simp add: mkRecord_def)
  from before h st r t re show ?thesis
    by blast
qed

theorem advance_n_times_finishes_witness:
  "running example_run \<and> index example_run = 0 \<and> length (problems example_run) = 2 \<and>
   0 < (2::nat) \<and> length [example_clock, example_clock] = 2 \<and>
   \<not> running (advances example_stringify [example_clock, example_clock] example_run) \<and>
   history (advances example_stringify [example_clock, example_clock] example_run) =
     [\<lparr>date = ''2024-01-01T00:00:05.000Z'', problemsCount = 2, solved = 0, total = 2,
       durationSec = 4, reason = ''finished''\<rparr>]"
proof -
  have h: "running example_run" "index example_run = 0" "length (problems example_run) = 2"
    "0 < (2::nat)" "length [example_clock, example_clock] = 2"
    by (simp_all add: example_run_eq)
  have r: "mkRecord example_clock (Some ''finished'') example_run =
      \<lparr>date = ''2024-01-01T00:00:05.000Z'', problemsCount = 2, solved = 0, total = 2,
       durationSec = 4, reason = ''finished''\<rparr>"
    by (simp add: example_run_eq mkRecord_def example_clock_def roundSec_def floor_divide_numeral_rat)
  have e: "history example_run = []"
    by (simp add: example_run_eq)
  show ?thesis
    using h advance_n_times_finishes [OF h, of example_stringify]
    by (simp add: r e)
qed




text \<open>
  Claim C3, as amended. \<^verbatim>\<open>stop(reason)\<close> called from the current render, as the Stop
  button calls it, in any state: it leaves the controller idle, puts one record at the
  head of the history (kept to 50) and writes that history to the storage. The
  record's \<^verbatim>\<open>solved\<close> is the current score and its \<^verbatim>\<open>reason\<close> the given one, \<^verbatim>\<open>"user"\<close>
  without argument. Its \<^verbatim>\<open>total\<close> is the size of the generated batch when that batch is
  not empty, however few problems were attempted; for an empty batch it is the count
  configured at the moment of the call. What \<^verbatim>\<open>stop\<close> records when an older render's
  \<^verbatim>\<open>next\<close> reaches it is left open.
\<close>

theorem stop_record:
  "\<not> running (stop J clk r s) \<and>
   history (stop J clk r s) = take 50 (hd (history (stop J clk r s)) # history s) \<and>
   storage (stop J clk r s) = Some (J (history (stop J clk r s))) \<and>
   solved (hd (history (stop J clk r s))) = score s \<and>
   total (hd (history (stop J clk r s))) =
     (if problems s = [] then numProblems s else of_nat (length (problems s))) \<and>
   reason (hd (history (stop J clk r s))) = (case r of None \<Rightarrow> ''user'' | Some x \<Rightarrow> x)"
  by (simp add: stop_fields mkRecord_def)

text \<open>
  The claim as stated, for every state and every call of \<^verbatim>\<open>stop\<close>, fails twice. On
  an empty batch: start with a count of 0, set the count field to 7 during the run,
  and stop; no problem was generated, and the record says \<open>total = 7\<close>. Through an
  older render: on a batch of one with auto-advance, the \<^verbatim>\<open>next\<close> that \<^verbatim>\<open>checkAnswer\<close>
  schedules is the one of the render before the score was raised; it calls
  \<^verbatim>\<open>stop("finished")\<close> of that render, and the record says \<open>solved = 0\<close> while the score
  is 1.
\<close>

theorem stop_record_counterexample:
  "problems (setNumProblems 7 (fst (start (\<lambda>i. 0) 1000 ((init [] None)\<lparr>numProblems := 0\<rparr>)))) = [] \<and>
   running (setNumProblems 7 (fst (start (\<lambda>i. 0) 1000 ((init [] None)\<lparr>numProblems := 0\<rparr>)))) \<and>
   total (hd (history (stop example_stringify example_clock (Some ''user'')
            (setNumProblems 7 (fst (start (\<lambda>i. 0) 1000 ((init [] None)\<lparr>numProblems := 0\<rparr>))))))) = 7 \<and>
   running (checkAnswer ''5'' example_single) \<and>
   score (checkAnswer ''5'' example_single) = 1 \<and>
   next_from example_single example_stringify example_clock (checkAnswer ''5'' example_single) =
     stop_from example_single example_stringify example_clock (Some ''finished'')
       ((checkAnswer ''5'' example_single)\<lparr>answer := [], feedback := None\<rparr>) \<and>
   solved (hd (history (next_from example_single example_stringify example_clock
                          (checkAnswer ''5'' example_single)))) = 0"
proof -
  have a: "problems (setNumProblems 7 (fst (start (\<lambda>i. 0) 1000 ((init [] None)\<lparr>numProblems := 0\<rparr>)))) = []"
    "running (setNumProblems 7 (fst (start (\<lambda>i. 0) 1000 ((init [] None)\<lparr>numProblems := 0\<rparr>))))"
    "total (hd (history (stop example_stringify example_clock (Some ''user'')
            (setNumProblems 7 (fst (start (\<lambda>i. 0) 1000 ((init [] None)\<lparr>numProblems := 0\<rparr>))))))) = 7"
    by (simp_all add: start_def makeProblems_def gen_loop.simps init_def
        setNumProblems_def stop_fields mkRecord_def)
  have b: "running (checkAnswer ''5'' example_single)" "score (checkAnswer ''5'' example_single) = 1"
    by (simp_all add: example_single_answered) (simp_all add: example_single_eq)
  have c: "next_from example_single example_stringify example_clock (checkAnswer ''5'' example_single) =
     stop_from example_single example_stringify example_clock (Some ''finished'')
       ((checkAnswer ''5'' example_single)\<lparr>answer := [], feedback := None\<rparr>)"
    by (simp add: next_from_def Let_def) (simp add: example_single_eq)
  have d: "solved (hd (history (stop_from example_single example_stringify example_clock (Some ''finished'')
       ((checkAnswer ''5'' example_single)\<lparr>answer := [], feedback := None\<rparr>)))) = 0"
    by (simp add: stop_from_def Let_def mkRecord_def) (simp add: example_single_eq)
  have d': "solved (hd (history (next_from example_single example_stringify example_clock
                          (checkAnswer ''5'' example_single)))) = 0"
    using d by (simp only: c)
  show ?thesis
    using a b c d' by blast
qed

text \<open>
  Claim C5. After one or more calls of \<^verbatim>\<open>stop\<close>, from any state and with any history,
  the history has at most 50 entries, its entry at index 0 is the record the last call
  built, and the storage holds that history.
\<close>

theorem history_capped_newest_first:
  assumes "cs \<noteq> []"
  shows "length (history (stops J cs s)) \<le> 50 \<and>
         history (stops J cs s) ! 0 = mkRecord (fst (last cs)) (snd (last cs)) (stops J (butlast cs) s) \<and>
         storage (stops J cs s) = Some (J (history (stops J cs s)))"
proof -
  have "cs = butlast cs @ [last cs]"
    using assms by simp
  then have "stops J cs s = stop J (fst (last cs)) (snd (last cs)) (stops J (butlast cs) s)"
    by (metis stops_append stops.simps)
  then show ?thesis
    by (simp add: stop_fields)
qed

theorem history_capped_newest_first_witness:
  "[(example_clock, None), (example_clock, Some ''finished'')] \<noteq> [] \<and>
   length (history (stops example_stringify [(example_clock, None), (example_clock, Some ''finished'')]
              (example_run\<lparr>history := replicate 50 (mkRecord example_clock None example_run)\<rparr>))) \<le> 50 \<and>
   reason (history (stops example_stringify [(example_clock, None), (example_clock, Some ''finished'')]
              (example_run\<lparr>history := replicate 50 (mkRecord example_clock None example_run)\<rparr>)) ! 0) = ''finished''"
proof -
  have ne: "[(example_clock, None), (example_clock, Some ''finished'')] \<noteq> []"
    by simp
  show ?thesis
    using history_capped_newest_first [OF ne, of example_stringify
        "example_run\<lparr>history := replicate 50 (mkRecord example_clock None example_run)\<rparr>"]
    by (simp add: mkRecord_def)
qed

text \<open>
  Claim C6. While running with a current problem and \<^verbatim>\<open>timePerProblem > 0\<close>, the effect
  starts the countdown at \<^verbatim>\<open>timePerProblem\<close>. The ticks before the countdown reaches
  zero only count \<^verbatim>\<open>elapsed\<close>. The tick that reaches it, the
  \<open>\<lceil>timePerProblem\<rceil>\<close>-th, sets the feedback to \<^verbatim>\<open>{ok: false, correct: a + b}\<close>, and
  then: with \<^verbatim>\<open>autoNext\<close> it calls \<^verbatim>\<open>next\<close> itself; without, the state stays as it is,
  running, with that feedback.
\<close>

theorem timer_expiry:
  assumes run: "running s" and cur: "index s < length (problems s)" and pos: "0 < timePerProblem s"
  shows "timerEffect s = (Some (timePerProblem s), s\<lparr>elapsed := 0\<rparr>) \<and>
         (\<forall>k < nat \<lceil>timePerProblem s\<rceil>.
            snd (ticks J clk k (timePerProblem s, s\<lparr>elapsed := 0\<rparr>)) = s\<lparr>elapsed := k\<rparr>) \<and>
         snd (ticks J clk (nat \<lceil>timePerProblem s\<rceil>) (timePerProblem s, s\<lparr>elapsed := 0\<rparr>)) =
           (if autoNext s
            then next J clk (s\<lparr>elapsed := nat \<lceil>timePerProblem s\<rceil>,
                   feedback := Some \<lparr>ok = False,
                     correct = Some (p_a (problems s ! index s) + p_b (problems s ! index s))\<rparr>\<rparr>)
            else s\<lparr>elapsed := nat \<lceil>timePerProblem s\<rceil>,
                   feedback := Some \<lparr>ok = False,
                     correct = Some (p_a (problems s ! index s) + p_b (problems s ! index s))\<rparr>\<rparr>)"
proof -
  let ?t = "timePerProblem s"
  let ?T = "nat \<lceil>?t\<rceil>"
  let ?s0 = "s\<lparr>elapsed := 0\<rparr>"
  have eff: "timerEffect s = (Some ?t, ?s0)"
    using run pos by (simp add: timerEffect_def)
  have lt: "of_nat k < ?t" if "k < ?T" for k
  proof -
    from that have "int k < \<lceil>?t\<rceil>" by simp
    then show ?thesis by (simp add: less_ceiling_iff)
  qed
  have before: "snd (ticks J clk k (?t, ?s0)) = s\<lparr>elapsed := k\<rparr>" if "k < ?T" for k
    using ticks_before[OF lt[OF that], of J clk ?s0] by simp
  have Tpos: "0 < ?T"
    using pos by simp
  then obtain m where m: "?T = Suc m"
    by (cases ?T) auto
  have "m < ?T" using m by simp
  from ticks_before[OF lt[OF this], of J clk ?s0]
  have tm: "ticks J clk m (?t, ?s0) = (?t - of_nat m, s\<lparr>elapsed := m\<rparr>)"
    by simp
  have c: "0 \<le> \<lceil>?t\<rceil>"
    using pos by simp
  have "(of_nat ?T :: rat) = of_int (int ?T)"
    by simp
  also have "int ?T = \<lceil>?t\<rceil>"
    using c by simp
  finally have "?t \<le> of_nat ?T"
    by simp
  then have "?t - of_nat m - 1 \<le> 0"
    by (simp add: m)
  then have "snd (ticks J clk ?T (?t, ?s0)) =
           (if autoNext s
            then next J clk (s\<lparr>elapsed := ?T,
                   feedback := Some \<lparr>ok = False,
                     correct = Some (p_a (problems s ! index s) + p_b (problems s ! index s))\<rparr>\<rparr>)
            else s\<lparr>elapsed := ?T,
                   feedback := Some \<lparr>ok = False,
                     correct = Some (p_a (problems s ! index s) + p_b (problems s ! index s))\<rparr>\<rparr>)"
    using cur unfolding m by (simp add: tm tick_def Let_def)
  with eff before show ?thesis
    by blast
qed

theorem timer_expiry_witness:
  "running (example_run\<lparr>timePerProblem := 5\<rparr>) \<and>
   index (example_run\<lparr>timePerProblem := 5\<rparr>) < length (problems (example_run\<lparr>timePerProblem := 5\<rparr>)) \<and>
   0 < timePerProblem (example_run\<lparr>timePerProblem := 5\<rparr>) \<and>
   feedback (snd (ticks example_stringify example_clock 5 (5, example_run\<lparr>timePerProblem := 5, elapsed := 0\<rparr>))) =
     Some \<lparr>ok = False, correct = Some (Num 5)\<rparr> \<and>
   running (snd (ticks example_stringify example_clock 5 (5, example_run\<lparr>timePerProblem := 5, elapsed := 0\<rparr>))) \<and>
   index (snd (ticks example_stringify example_clock 5 (5, example_run\<lparr>timePerProblem := 5, elapsed := 0\<rparr>))) = 0"
proof -
  have h: "running (example_run\<lparr>timePerProblem := 5\<rparr>)"
    "index (example_run\<lparr>timePerProblem := 5\<rparr>) < length (problems (example_run\<lparr>timePerProblem := 5\<rparr>))"
    "0 < timePerProblem (example_run\<lparr>timePerProblem := 5\<rparr>)"
    by (simp_all add: example_run_eq)
  have e: "autoNext example_run = False" "running example_run" "index example_run = 0"
    "problems example_run ! 0 = \<lparr>p_a = Num 0, p_b = Num 5, p_op = ''+'', p_id = (Num 0, Num 5, 0)\<rparr>"
    by (simp_all add: example_run_eq)
  show ?thesis
    using h timer_expiry [OF h, of example_stringify example_clock]
    by (simp add: e example_sum)
qed

text \<open>
  Claim C7: an operation called in an invalid state is a no-op, and \<^verbatim>\<open>stop\<close> while
  idle appends no record. \<^verbatim>\<open>checkAnswer\<close> does return at once when not running, but
  the code departs from the claim for \<^verbatim>\<open>stop\<close>: it has no test of \<^verbatim>\<open>running\<close>, and
  the \<^verbatim>\<open>next\<close> that \<^verbatim>\<open>checkAnswer\<close> schedules is not cancelled by the Stop button. On a
  batch of one with auto-advance: an answer, then Stop within the half second, leave
  the controller idle with the record \<^verbatim>\<open>"user"\<close> stored; the pending \<^verbatim>\<open>next\<close> then runs
  \<^verbatim>\<open>stop("finished")\<close> while idle, and the history and the storage hold the record
  \<^verbatim>\<open>"finished"\<close> alone afterwards.
\<close>

theorem delayed_next_after_stop:
  "pendingNext (checkAnswer ''5'' example_single) = 1 \<and>
   \<not> running (stop example_stringify example_clock (Some ''user'') (checkAnswer ''5'' example_single)) \<and>
   map reason (history (stop example_stringify example_clock (Some ''user'')
                          (checkAnswer ''5'' example_single))) = [''user''] \<and>
   storage (stop example_stringify example_clock (Some ''user'') (checkAnswer ''5'' example_single)) =
     Some ''r'' \<and>
   map reason (history (next_from example_single example_stringify example_clock
                 (stop example_stringify example_clock (Some ''user'')
                    (checkAnswer ''5'' example_single)))) = [''finished''] \<and>
   map solved (history (next_from example_single example_stringify example_clock
                 (stop example_stringify example_clock (Some ''user'')
                    (checkAnswer ''5'' example_single)))) = [0] \<and>
   next_from example_single example_stringify example_clock
     (stop example_stringify example_clock (Some ''user'') (checkAnswer ''5'' example_single)) \<noteq>
   stop example_stringify example_clock (Some ''user'') (checkAnswer ''5'' example_single)"
proof -
  let ?s1 = "checkAnswer ''5'' example_single"
  let ?s2 = "stop example_stringify example_clock (Some ''user'') ?s1"
  let ?s3 = "next_from example_single example_stringify example_clock ?s2"
  have e: "history example_single = []" "index example_single = 0"
    "length (problems example_single) = 1"
    by (simp_all add: example_single_eq)
  have p: "pendingNext ?s1 = 1" and h1: "history ?s1 = []"
    by (simp_all add: example_single_answered e)
  have r2: "\<not> running ?s2" and h2: "map reason (history ?s2) = [''user'']"
    and st2: "storage ?s2 = Some ''r''"
    by (simp_all add: stop_fields h1 mkRecord_def example_stringify_def)
  have h3: "map reason (history ?s3) = [''finished'']" "map solved (history ?s3) = [0]"
    by (simp_all add: next_from_def stop_from_def Let_def e mkRecord_def) (simp_all add: example_single_eq)
  have "history ?s3 \<noteq> history ?s2"
    using h2 h3(1) by auto
  then have ne: "?s3 \<noteq> ?s2"
    by auto
  show ?thesis
    using p r2 h2 st2 h3 ne by blast
qed

text \<open>
  Claim C10. While running, a text that parses to the true sum of the current problem
  adds 1 to the score at every call of \<^verbatim>\<open>checkAnswer\<close>: \<open>k\<close> calls on the same index add
  \<open>k\<close>, the index does not move, and a \<^verbatim>\<open>stop\<close> after them records \<open>solved = score + k\<close>
  against a \<^verbatim>\<open>total\<close> of the batch size, which \<open>solved\<close> exceeds once \<open>k\<close> exceeds it.
\<close>

theorem repeated_submit_scores_again:
  assumes "running s" "index s < length (problems s)" "parseInt (trim raw) = Some z"
    "round64 (of_int z) = p_a (problems s ! index s) + p_b (problems s ! index s)"
  shows "score (checkAnswer raw s) = score s + 1 \<and>
         score (submits k raw s) = score s + k \<and>
         index (submits k raw s) = index s \<and>
         solved (hd (history (stop J clk r (submits k raw s)))) = score s + k \<and>
         total (hd (history (stop J clk r (submits k raw s)))) = of_nat (length (problems s)) \<and>
         (length (problems s) < k \<longrightarrow>
            total (hd (history (stop J clk r (submits k raw s))))
              < of_nat (solved (hd (history (stop J clk r (submits k raw s))))))"
proof -
  note f = submits_fields[OF assms, of k]
  have ne: "problems s \<noteq> []"
    using assms(2) by auto
  have 1: "score (checkAnswer raw s) = score s + 1"
    by (simp add: checkAnswer_correct[OF assms])
  have 2: "solved (hd (history (stop J clk r (submits k raw s)))) = score s + k"
    using f by (simp add: stop_fields mkRecord_def)
  have 3: "total (hd (history (stop J clk r (submits k raw s)))) = of_nat (length (problems s))"
    using f ne by (simp add: stop_fields mkRecord_def)
  have 4: "total (hd (history (stop J clk r (submits k raw s))))
              < of_nat (solved (hd (history (stop J clk r (submits k raw s)))))"
    if "length (problems s) < k"
    unfolding 2 3 using that by simp
  from f 1 2 3 4 show ?thesis
    by blast
qed

theorem repeated_submit_scores_again_witness:
  "running example_run \<and> index example_run < length (problems example_run) \<and>
   parseInt (trim ''5'') = Some 5 \<and>
   round64 (of_int 5) = p_a (problems example_run ! index example_run) + p_b (problems example_run ! index example_run) \<and>
   score (submits 3 ''5'' example_run) = 3 \<and>
   index (submits 3 ''5'' example_run) = 0 \<and>
   solved (hd (history (stop example_stringify example_clock None (submits 3 ''5'' example_run)))) = 3 \<and>
   total (hd (history (stop example_stringify example_clock None (submits 3 ''5'' example_run)))) = 2"
proof -
  have h: "running example_run" "index example_run < length (problems example_run)"
    "parseInt (trim ''5'') = Some 5"
    "round64 (of_int 5) = p_a (problems example_run ! index example_run) + p_b (problems example_run ! index example_run)"
    by (simp_all add: example_run_eq parseInt_def trim_def isWhiteSpace_def isDigit_def
        digitsVal_def digitVal_def round64_5 example_sum)
  have e: "score example_run = 0" "index example_run = 0" "length (problems example_run) = 2"
    by (simp_all add: example_run_eq)
  show ?thesis
    using h repeated_submit_scores_again [OF h, of 3 example_stringify example_clock None]
    by (simp add: e)
qed

section \<open>The claim on the stored history\<close>

text \<open>
  Claim C8: the initializer returns the empty sequence, and nothing faults, when the
  stored data is missing or malformed. It does so when \<^verbatim>\<open>getItem\<close> throws or returns
  \<^verbatim>\<open>null\<close> or the empty text, and when \<^verbatim>\<open>JSON.parse\<close> throws. The code departs from the
  claim on stored text that parses to something else than an array: for \<^verbatim>\<open>{}\<close> and
  for \<^verbatim>\<open>null\<close> the initializer returns that value, and the render that follows throws
  a \<^verbatim>\<open>TypeError\<close> on \<^verbatim>\<open>history.map\<close> or \<^verbatim>\<open>history.length\<close>.
\<close>

theorem loadHistory_parsed_non_array:
  "example_parse ''{}'' = Inr (JObject []) \<and>
   loadHistory example_parse (Inr (Some ''{}'')) = JObject [] \<and>
   historyRows (loadHistory example_parse (Inr (Some ''{}''))) = Inl (Exn ''TypeError'') \<and>
   example_parse ''null'' = Inr JNull \<and>
   loadHistory example_parse (Inr (Some ''null'')) = JNull \<and>
   historyRows (loadHistory example_parse (Inr (Some ''null''))) = Inl (Exn ''TypeError'')"
  by (simp add: example_parse_def loadHistory_def)

end
